theory Spec2Isabelle
  imports Complex_Main
begin

section \<open>Coefficient dictionaries (cvxpy/utilities/coefficient\_utils.py)\<close>

text \<open>
  A coefficient dictionary maps a variable id to its blocks. The left operand is copied and
  then updated while the items of the right operand are visited one by one, so the left
  dictionary is a map and the right one is the list of its items. The blocks are values of
  the array type of the source, whose \<open>+\<close> is the addition of that type.
\<close>

type_synonym vid = nat

fun add_items :: "(vid \<rightharpoonup> 'a::plus) \<Rightarrow> (vid \<times> 'a) list \<Rightarrow> (vid \<rightharpoonup> 'a)" where
  "add_items new_coeffs [] = new_coeffs"
| "add_items new_coeffs ((var_id, blocks) # rest) =
     (case new_coeffs var_id of
        Some old \<Rightarrow> add_items (new_coeffs(var_id \<mapsto> old + blocks)) rest
      | None \<Rightarrow> add_items (new_coeffs(var_id \<mapsto> blocks)) rest)"

definition add :: "(vid \<rightharpoonup> 'a::plus) \<Rightarrow> (vid \<times> 'a) list \<Rightarrow> (vid \<rightharpoonup> 'a)" where
  "add lh_coeffs rh_items = add_items lh_coeffs rh_items"

section \<open>Averaging of the workers' reports (cvxpy/consensus/consensus.py)\<close>

text \<open>
  Modelled from the spec: the solve statuses and the set \<open>INF_OR_UNB\<close> live in
  cvxpy/settings.py, which is not part of the sources at hand. The spec names the statuses
  optimal, infeasible, unbounded and other non-success, and the set as infeasible/unbounded.
\<close>

datatype status = OPTIMAL | INFEASIBLE | UNBOUNDED | SOLVER_ERROR

definition INF_OR_UNB :: "status list" where
  "INF_OR_UNB = [INFEASIBLE, UNBOUNDED]"

datatype error = RuntimeError | IndexError | UnboundLocalError | ValueError | KeyError
  | ZeroDivisionError

text \<open>
  \<open>defaultdict(float)\<close> and \<open>defaultdict(int)\<close>: reading a missing key yields zero and
  stores it.
\<close>

definition dd_float :: "(vid \<rightharpoonup> real) \<Rightarrow> vid \<Rightarrow> real" where
  "dd_float d key = (case d key of None \<Rightarrow> 0 | Some v \<Rightarrow> v)"

definition dd_int :: "(vid \<rightharpoonup> int) \<Rightarrow> vid \<Rightarrow> int" where
  "dd_int d key = (case d key of None \<Rightarrow> 0 | Some c \<Rightarrow> c)"

text \<open>
  The inner loop over \<open>xvals.items()\<close>. The statement \<open>++xcnts[key]\<close> is the unary plus
  applied twice to the value read from \<open>xcnts\<close>: the read stores the default, the result is
  dropped, nothing is incremented.
\<close>

fun sum_xvals ::
  "(vid \<rightharpoonup> real) \<times> (vid \<rightharpoonup> int) \<Rightarrow> (vid \<times> real) list \<Rightarrow> (vid \<rightharpoonup> real) \<times> (vid \<rightharpoonup> int)" where
  "sum_xvals (xbars, xcnts) [] = (xbars, xcnts)"
| "sum_xvals (xbars, xcnts) ((key, v) # rest) =
     sum_xvals (xbars(key \<mapsto> dd_float xbars key + v), xcnts(key \<mapsto> dd_int xcnts key)) rest"

fun gather ::
  "(vid \<rightharpoonup> real) \<times> (vid \<rightharpoonup> int) \<Rightarrow> (status \<times> (vid \<times> real) list) list
     \<Rightarrow> error + (vid \<rightharpoonup> real) \<times> (vid \<rightharpoonup> int)" where
  "gather acc [] = Inr acc"
| "gather acc ((st, xvals) # rest) =
     (if st \<in> set INF_OR_UNB then Inl RuntimeError else gather (sum_xvals acc xvals) rest)"

text \<open>The last loop of \<open>x_average\<close>: every key of \<open>xbars\<close> with a nonzero count is divided.\<close>

definition divide_counts :: "(vid \<rightharpoonup> real) \<Rightarrow> (vid \<rightharpoonup> int) \<Rightarrow> (vid \<rightharpoonup> real)" where
  "divide_counts xbars xcnts =
     (\<lambda>key. case xbars key of
        None \<Rightarrow> None
      | Some v \<Rightarrow> if dd_int xcnts key \<noteq> 0 then Some (v / real_of_int (dd_int xcnts key)) else Some v)"

definition x_average :: "(status \<times> (vid \<times> real) list) list \<Rightarrow> error + (vid \<rightharpoonup> real)" where
  "x_average prox_res =
     (case gather (Map.empty, Map.empty) prox_res of
        Inl e \<Rightarrow> Inl e
      | Inr (xbars, xcnts) \<Rightarrow> Inr (divide_counts xbars xcnts))"

text \<open>
  \<open>consensus_map\<close> after the scatter: the replies \<open>(status, xvals, uvals)\<close> of the pipes in
  order. The last loop runs over the keys of the argument \<open>xbars\<close>, and divides the entries
  of \<open>xbars_n\<close>; reading \<open>xbars_n[key]\<close> for the in-place division stores the default.
\<close>

fun gather_map ::
  "(vid \<rightharpoonup> real) \<times> (vid \<rightharpoonup> int) \<times> 'u list \<Rightarrow> (status \<times> (vid \<times> real) list \<times> 'u) list
     \<Rightarrow> error + (vid \<rightharpoonup> real) \<times> (vid \<rightharpoonup> int) \<times> 'u list" where
  "gather_map acc [] = Inr acc"
| "gather_map (xbars_n, xcnts, udicts_n) ((st, xvals, uvals) # rest) =
     (if st \<in> set INF_OR_UNB then Inl RuntimeError
      else (case sum_xvals (xbars_n, xcnts) xvals of
              (xbars_n', xcnts') \<Rightarrow> gather_map (xbars_n', xcnts', udicts_n @ [uvals]) rest))"

definition divide_counts_map ::
  "(vid \<rightharpoonup> real) \<Rightarrow> (vid \<rightharpoonup> real) \<Rightarrow> (vid \<rightharpoonup> int) \<Rightarrow> (vid \<rightharpoonup> real)" where
  "divide_counts_map xbars xbars_n xcnts =
     (\<lambda>key. case xbars key of
        None \<Rightarrow> xbars_n key
      | Some _ \<Rightarrow> if dd_int xcnts key \<noteq> 0
                  then Some (dd_float xbars_n key / real_of_int (dd_int xcnts key))
                  else xbars_n key)"

definition consensus_map ::
  "(vid \<rightharpoonup> real) \<Rightarrow> (status \<times> (vid \<times> real) list \<times> 'u) list
     \<Rightarrow> error + (vid \<rightharpoonup> real) \<times> 'u list" where
  "consensus_map xbars replies =
     (case gather_map (Map.empty, Map.empty, []) replies of
        Inl e \<Rightarrow> Inl e
      | Inr (xbars_n, xcnts, udicts_n) \<Rightarrow> Inr (divide_counts_map xbars xbars_n xcnts, udicts_n))"

section \<open>The coordinator (consensus)\<close>

text \<open>
  A worker process as the coordinator sees it: the problem and the initial step size it was
  started with, and whether it is still running.
\<close>

record 'p proc =
  proc_problem :: 'p
  proc_rho :: real
  proc_alive :: bool

text \<open>
  The set-up loop \<open>for i in range(N)\<close>: \<open>rho_init[i]\<close> raises IndexError when the list is
  too short, and the workers started before stay as they are.
\<close>

fun start_workers ::
  "'p list \<Rightarrow> nat \<Rightarrow> real list \<Rightarrow> 'p proc list \<Rightarrow> error option \<times> 'p proc list" where
  "start_workers [] i rho_init procs = (None, procs)"
| "start_workers (p # ps) i rho_init procs =
     (if i < length rho_init
      then start_workers ps (Suc i) rho_init
             (procs @ [\<lparr>proc_problem = p, proc_rho = rho_init ! i, proc_alive = True\<rparr>])
      else (Some IndexError, procs))"

text \<open>
  The round loop \<open>for i in range(max_iter)\<close>. \<open>recv i w\<close> is the report that worker \<open>w\<close>
  sends in round \<open>i\<close>. The local name \<open>xbars\<close> is unbound (\<open>None\<close>) until the first round
  has been averaged; \<open>sent\<close> lists the round indices broadcast so far.
\<close>

fun admm_loop ::
  "nat \<Rightarrow> nat \<Rightarrow> nat \<Rightarrow> (nat \<Rightarrow> nat \<Rightarrow> status \<times> (vid \<times> real) list)
     \<Rightarrow> (vid \<rightharpoonup> real) option \<Rightarrow> nat list
     \<Rightarrow> error option \<times> (vid \<rightharpoonup> real) option \<times> nat list" where
  "admm_loop 0 i N recv xbars sent = (None, xbars, sent)"
| "admm_loop (Suc n) i N recv xbars sent =
     (case x_average (map (recv i) [0..<N]) of
        Inl e \<Rightarrow> (Some e, xbars, sent)
      | Inr xb \<Rightarrow> admm_loop n (Suc i) N recv (Some xb) (sent @ [i]))"

definition terminate :: "'p proc \<Rightarrow> 'p proc" where
  "terminate p = p\<lparr>proc_alive := False\<rparr>"

text \<open>
  What a call of \<open>consensus\<close> leaves behind: the value returned or the exception raised, the
  worker processes, and the rounds that were broadcast. The wall-clock \<open>solve_time\<close> of the
  returned dictionary is left out.
\<close>

record 'p run =
  outcome :: "error + (vid \<rightharpoonup> real)"
  procs :: "'p proc list"
  sent_rounds :: "nat list"

text \<open>
  \<open>rho_init\<close> is the keyword argument when given (\<open>None\<close> when it is not: the default is
  \<open>N*[1.0]\<close>). An exception leaves the function at once; \<open>terminate\<close> is called on the
  processes only after the round loop has finished, and the return expression is evaluated
  after that.
\<close>

definition consensus ::
  "'p list \<Rightarrow> int \<Rightarrow> real list option \<Rightarrow> (nat \<Rightarrow> nat \<Rightarrow> status \<times> (vid \<times> real) list)
     \<Rightarrow> 'p run" where
  "consensus p_list max_iter rho_init_kw recv =
     (let N = length p_list;
          rho_init = (case rho_init_kw of None \<Rightarrow> replicate N 1 | Some r \<Rightarrow> r)
      in case start_workers p_list 0 rho_init [] of
           (Some e, ps) \<Rightarrow> \<lparr>outcome = Inl e, procs = ps, sent_rounds = []\<rparr>
         | (None, ps) \<Rightarrow>
             (case admm_loop (nat max_iter) 0 N recv None [] of
                (Some e, xbars, sent) \<Rightarrow> \<lparr>outcome = Inl e, procs = ps, sent_rounds = sent\<rparr>
              | (None, None, sent) \<Rightarrow>
                  \<lparr>outcome = Inl UnboundLocalError, procs = map terminate ps, sent_rounds = sent\<rparr>
              | (None, Some xb, sent) \<Rightarrow>
                  \<lparr>outcome = Inr xb, procs = map terminate ps, sent_rounds = sent\<rparr>))"

section \<open>The spectral step size (step\_ls, step\_cor, step\_safe, step\_spec)\<close>

text \<open>
  The arrays are lists of reals. A NumPy quotient with a zero divisor does not raise: it
  yields an infinity or not-a-number (with a warning) and the computation goes on, so the
  scalars of the estimators are reals extended by these values. Rounding, overflow and the
  sign of a zero are not modelled: sums and products of reals are exact, and a zero divisor
  counts as positive zero.
\<close>

datatype npfloat = Fin real | PInf | NInf | NaN

definition inf_of :: "real \<Rightarrow> npfloat" where
  "inf_of s = (if 0 < s then PInf else if s < 0 then NInf else NaN)"

definition np_div :: "real \<Rightarrow> real \<Rightarrow> npfloat" where
  "np_div a b = (if b \<noteq> 0 then Fin (a / b) else inf_of a)"

fun np_times :: "npfloat \<Rightarrow> npfloat \<Rightarrow> npfloat" where
  "np_times (Fin a) (Fin b) = Fin (a * b)"
| "np_times NaN y = NaN"
| "np_times x NaN = NaN"
| "np_times PInf (Fin b) = inf_of b"
| "np_times NInf (Fin b) = inf_of (- b)"
| "np_times (Fin a) PInf = inf_of a"
| "np_times (Fin a) NInf = inf_of (- a)"
| "np_times PInf PInf = PInf"
| "np_times PInf NInf = NInf"
| "np_times NInf PInf = NInf"
| "np_times NInf NInf = PInf"

fun np_minus :: "npfloat \<Rightarrow> npfloat \<Rightarrow> npfloat" where
  "np_minus (Fin a) (Fin b) = Fin (a - b)"
| "np_minus NaN y = NaN"
| "np_minus x NaN = NaN"
| "np_minus PInf PInf = NaN"
| "np_minus NInf NInf = NaN"
| "np_minus PInf y = PInf"
| "np_minus NInf y = NInf"
| "np_minus (Fin a) PInf = NInf"
| "np_minus (Fin a) NInf = PInf"

fun np_sqrt :: "npfloat \<Rightarrow> npfloat" where
  "np_sqrt (Fin a) = (if 0 \<le> a then Fin (sqrt a) else NaN)"
| "np_sqrt PInf = PInf"
| "np_sqrt NInf = NaN"
| "np_sqrt NaN = NaN"

text \<open>The comparisons: every comparison with not-a-number is false.\<close>

fun np_less :: "npfloat \<Rightarrow> npfloat \<Rightarrow> bool" where
  "np_less (Fin a) (Fin b) = (a < b)"
| "np_less NaN y = False"
| "np_less x NaN = False"
| "np_less x NInf = False"
| "np_less PInf y = False"
| "np_less NInf y = True"
| "np_less (Fin a) PInf = True"

fun np_le :: "npfloat \<Rightarrow> npfloat \<Rightarrow> bool" where
  "np_le (Fin a) (Fin b) = (a \<le> b)"
| "np_le NaN y = False"
| "np_le x NaN = False"
| "np_le NInf y = True"
| "np_le x PInf = True"
| "np_le PInf y = False"
| "np_le (Fin a) NInf = False"

text \<open>
  The builtins \<open>min(a, b)\<close> and \<open>max(a, b)\<close> keep the first argument unless the second
  compares strictly smaller (greater).
\<close>

definition py_min :: "npfloat \<Rightarrow> npfloat \<Rightarrow> npfloat" where
  "py_min a b = (if np_less b a then b else a)"

definition py_max :: "npfloat \<Rightarrow> npfloat \<Rightarrow> npfloat" where
  "py_max a b = (if np_less a b then b else a)"


definition vec_mul :: "real list \<Rightarrow> real list \<Rightarrow> error + real list" where
  "vec_mul p d =
     (if length p = length d then Inr (map2 (*) p d)
      else if length p = 1 then Inr (map (\<lambda>y. hd p * y) d)
      else if length d = 1 then Inr (map (\<lambda>x. x * hd d) p)
      else Inl ValueError)"

text \<open>\<open>sum(v**2)\<close>.\<close>

definition sum_sq :: "real list \<Rightarrow> real" where
  "sum_sq v = sum_list (map (\<lambda>x. x\<^sup>2) v)"

definition step_ls :: "real list \<Rightarrow> real list \<Rightarrow> error + npfloat" where
  "step_ls p d =
     (case vec_mul p d of
        Inl e \<Rightarrow> Inl e
      | Inr pd \<Rightarrow>
          (let sd = np_div (sum_sq d) (sum_list pd);
               mg = np_div (sum_list pd) (sum_sq p)
           in if np_less sd (np_times (Fin 2) mg) then Inr mg else Inr (np_minus sd mg)))"

definition step_cor :: "real list \<Rightarrow> real list \<Rightarrow> error + npfloat" where
  "step_cor p d =
     (case vec_mul p d of
        Inl e \<Rightarrow> Inl e
      | Inr pd \<Rightarrow> Inr (np_div (sum_list pd) (sqrt (sum_sq p * sum_sq d))))"

definition step_safe ::
  "real \<Rightarrow> npfloat \<Rightarrow> npfloat \<Rightarrow> npfloat \<Rightarrow> npfloat \<Rightarrow> real \<Rightarrow> npfloat" where
  "step_safe rho a b a_cor b_cor eps =
     (if np_less (Fin eps) a_cor \<and> np_less (Fin eps) b_cor then np_sqrt (np_times a b)
      else if np_less (Fin eps) a_cor \<and> np_le b_cor (Fin eps) then a
      else if np_le a_cor (Fin eps) \<and> np_less (Fin eps) b_cor then b
      else Fin rho)"

text \<open>
  \<open>C/(1.0*k**2)\<close> and \<open>rho/scale\<close> are quotients of Python floats, which raise
  ZeroDivisionError on a zero divisor.
\<close>

definition step_spec ::
  "real \<Rightarrow> int \<Rightarrow> real list \<Rightarrow> real list \<Rightarrow> real list \<Rightarrow> real list \<Rightarrow> real \<Rightarrow> real
     \<Rightarrow> error + npfloat" where
  "step_spec rho k dx dxbar du duhat eps C =
     (if sum_sq dx = 0 \<or> sum_sq dxbar = 0 \<or> sum_sq du = 0 \<or> sum_sq duhat = 0
      then Inr (Fin rho)
      else case step_ls dx duhat of Inl e \<Rightarrow> Inl e | Inr a_hat \<Rightarrow>
           case step_ls dxbar du of Inl e \<Rightarrow> Inl e | Inr b_hat \<Rightarrow>
           case step_cor dx duhat of Inl e \<Rightarrow> Inl e | Inr a_cor \<Rightarrow>
           case step_cor dxbar du of Inl e \<Rightarrow> Inl e | Inr b_cor \<Rightarrow>
             if k = 0 then Inl ZeroDivisionError
             else (let scale = 1 + C / (1 * (real_of_int k)\<^sup>2);
                       rho_hat = step_safe rho a_hat b_hat a_cor b_cor eps
                   in if scale = 0 then Inl ZeroDivisionError
                      else Inr (py_max (py_min rho_hat (Fin (scale * rho))) (Fin (rho / scale)))))"



section \<open>The worker loops (run\_worker, worker\_map)\<close>
















section \<open>The proximal problem (flip\_obj, prox\_step)\<close>

text \<open>
  Modelled from the spec: the classes \<open>Problem\<close>, \<open>Minimize\<close>, \<open>Parameter\<close> and the atom
  \<open>sum_squares\<close> are not among the sources at hand. A problem is an objective and a list of
  constraints; an expression is a tree over variables, parameters, constants and the
  expressions of the local problem, which stay opaque. The parameters that \<open>prox_step\<close>
  creates are named after their role: the step size, and \<open>xbar\<close> and \<open>u\<close> of a variable.
\<close>

datatype param = PRho | PXbar vid | PU vid

datatype expr =
    Opaque nat
  | Var vid
  | Par param
  | Const real
  | Neg expr
  | Add expr expr
  | Sub expr expr
  | Mul expr expr
  | Div expr expr
  | SumSquares expr

datatype objective = Minimize expr | Maximize expr

record 'c problem =
  p_objective :: objective
  p_constraints :: "'c list"

text \<open>
  Modelled from the spec: the negation of an objective (the spec's objective normalised to
  a minimisation) turns a maximisation of \<open>e\<close> into the minimisation of \<open>-e\<close> and back.
\<close>

fun neg_objective :: "objective \<Rightarrow> objective" where
  "neg_objective (Minimize e) = Maximize (Neg e)"
| "neg_objective (Maximize e) = Minimize (Neg e)"

fun args0 :: "objective \<Rightarrow> expr" where
  "args0 (Minimize e) = e"
| "args0 (Maximize e) = e"

definition flip_obj :: "'c problem \<Rightarrow> objective" where
  "flip_obj prob =
     (case p_objective prob of
        Minimize e \<Rightarrow> p_objective prob
      | Maximize e \<Rightarrow> neg_objective (p_objective prob))"

text \<open>An entry of \<open>vmap\<close>: the variable and its two parameters.\<close>

record vmap_entry =
  vm_x :: expr
  vm_xbar :: param
  vm_u :: param

text \<open>\<open>np.zeros(size)\<close> for a size \<open>(rows, cols)\<close>, row after row.\<close>

definition zeros :: "nat \<times> nat \<Rightarrow> real list" where
  "zeros shape = replicate (fst shape * snd shape) 0"

text \<open>
  The loop over \<open>prob.variables()\<close>, a list of variables given by id and size: the entry of
  \<open>vmap\<close> is stored, the two parameters get their zero values, and the penalty of the
  variable is added to \<open>f\<close>.
\<close>

fun penalty_loop ::
  "(vid \<times> nat \<times> nat) list \<Rightarrow> (vid \<rightharpoonup> vmap_entry) \<times> expr \<times> (param \<rightharpoonup> real list)
     \<Rightarrow> (vid \<rightharpoonup> vmap_entry) \<times> expr \<times> (param \<rightharpoonup> real list)" where
  "penalty_loop [] acc = acc"
| "penalty_loop ((xid, shape) # rest) (vmap, f, vals) =
     penalty_loop rest
       (vmap(xid \<mapsto> \<lparr>vm_x = Var xid, vm_xbar = PXbar xid, vm_u = PU xid\<rparr>),
        Add f (Mul (Div (Par PRho) (Const 2))
                 (SumSquares (Sub (Sub (Var xid) (Par (PXbar xid)))
                                  (Div (Par (PU xid)) (Par PRho))))),
        vals(PXbar xid \<mapsto> zeros shape, PU xid \<mapsto> zeros shape))"

text \<open>
  The result of \<open>prox_step\<close>: the problem \<open>prox\<close>, the dictionary \<open>vmap\<close>, and the values of
  the parameters created (\<open>rho\<close> is the parameter \<open>PRho\<close>).
\<close>

record 'c prox_result =
  r_prox :: "'c problem"
  r_vmap :: "vid \<rightharpoonup> vmap_entry"
  r_vals :: "param \<rightharpoonup> real list"

definition prox_step :: "'c problem \<Rightarrow> (vid \<times> nat \<times> nat) list \<Rightarrow> real \<Rightarrow> 'c prox_result" where
  "prox_step prob variables rho_init =
     (case penalty_loop variables
             (Map.empty, args0 (flip_obj prob), [PRho \<mapsto> [rho_init]]) of
        (vmap, f, vals) \<Rightarrow>
          \<lparr>r_prox = \<lparr>p_objective = Minimize f, p_constraints = p_constraints prob\<rparr>,
           r_vmap = vmap, r_vals = vals\<rparr>)"

text \<open>
  The value of an expression under values for the variables, the parameters and the opaque
  expressions. A value is the list of the entries of an array, a scalar has one entry, and
  an operation between a scalar and an array applies to every entry.
\<close>

record env =
  e_var :: "vid \<Rightarrow> real list"
  e_par :: "param \<Rightarrow> real list"
  e_opaque :: "nat \<Rightarrow> real list"

definition bop :: "(real \<Rightarrow> real \<Rightarrow> real) \<Rightarrow> real list \<Rightarrow> real list \<Rightarrow> real list" where
  "bop f a b =
     (if length a = length b then map2 f a b
      else if length a = 1 then map (\<lambda>y. f (hd a) y) b
      else if length b = 1 then map (\<lambda>x. f x (hd b)) a
      else [])"

fun eval :: "env \<Rightarrow> expr \<Rightarrow> real list" where
  "eval env (Opaque n) = e_opaque env n"
| "eval env (Var xid) = e_var env xid"
| "eval env (Par p) = e_par env p"
| "eval env (Const c) = [c]"
| "eval env (Neg a) = map uminus (eval env a)"
| "eval env (Add a b) = bop (+) (eval env a) (eval env b)"
| "eval env (Sub a b) = bop (-) (eval env a) (eval env b)"
| "eval env (Mul a b) = bop (*) (eval env a) (eval env b)"
| "eval env (Div a b) = bop (/) (eval env a) (eval env b)"
| "eval env (SumSquares a) = [sum_sq (eval env a)]"

text \<open>The penalty of one variable: \<open>(rho/2) * ||x - xbar - u/rho||\<^sup>2\<close>.\<close>

definition penalty :: "env \<Rightarrow> real \<Rightarrow> vid \<Rightarrow> real" where
  "penalty env r xid =
     r / 2 * sum_sq (map (\<lambda>(x, xb, u). x - xb - u / r)
                      (zip (e_var env xid) (zip (e_par env (PXbar xid)) (e_par env (PU xid)))))"

section \<open>Theorems\<close>

lemma add_items_lookup:
  "distinct (map fst rh) \<Longrightarrow>
   add_items m rh k =
     (case (m k, map_of rh k) of
        (Some a, Some b) \<Rightarrow> Some (a + b)
      | (Some a, None) \<Rightarrow> Some a
      | (None, Some b) \<Rightarrow> Some b
      | (None, None) \<Rightarrow> None)"
proof (induction rh arbitrary: m)
  case Nil
  then show ?case by (simp split: option.splits)
next
  case (Cons item rh)
  obtain var_id blocks where item: "item = (var_id, blocks)" by (cases item)
  from Cons.prems item have fresh: "map_of rh var_id = None" and d: "distinct (map fst rh)"
    by (auto simp: map_of_eq_None_iff)
  show ?case
    using Cons.IH [OF d] fresh item by (auto split: option.splits)
qed

text \<open>
  C10. For a left dictionary and the items of a right dictionary (a dictionary has each key
  once), \<open>add\<close> returns a dictionary whose keys are the keys of either input; a key of both
  maps to the sum of the two blocks, a key of one input only maps to that input's blocks.
\<close>

theorem add_merges_coeffs:
  assumes "distinct (map fst rh_items)"
  shows "dom (add lh_coeffs rh_items) = dom lh_coeffs \<union> fst ` set rh_items \<and>
         add lh_coeffs rh_items k =
           (case (lh_coeffs k, map_of rh_items k) of
              (Some a, Some b) \<Rightarrow> Some (a + b)
            | (Some a, None) \<Rightarrow> Some a
            | (None, Some b) \<Rightarrow> Some b
            | (None, None) \<Rightarrow> None)"
proof -
  have look: "\<And>k. add lh_coeffs rh_items k =
     (case (lh_coeffs k, map_of rh_items k) of
        (Some a, Some b) \<Rightarrow> Some (a + b)
      | (Some a, None) \<Rightarrow> Some a
      | (None, Some b) \<Rightarrow> Some b
      | (None, None) \<Rightarrow> None)"
    unfolding add_def by (rule add_items_lookup [OF assms])
  have "\<And>k. (k \<in> dom (add lh_coeffs rh_items)) = (k \<in> dom lh_coeffs \<union> dom (map_of rh_items))"
    by (auto simp: look dom_def split: option.splits)
  then have "dom (add lh_coeffs rh_items) = dom lh_coeffs \<union> dom (map_of rh_items)"
    by blast
  then have "dom (add lh_coeffs rh_items) = dom lh_coeffs \<union> fst ` set rh_items"
    by (simp add: dom_map_of_conv_image_fst)
  with look show ?thesis by simp
qed

theorem add_merges_coeffs_witness:
  "distinct (map fst [(2::nat, 10::int), (3, 7)]) \<and>
   dom (add [1 \<mapsto> 5, 2 \<mapsto> 6] [(2, 10::int), (3, 7)]) = {1, 2, 3} \<and>
   add [1 \<mapsto> 5, 2 \<mapsto> 6] [(2, 10::int), (3, 7)] 2 = Some 16"
proof -
  have d: "distinct (map fst [(2::nat, 10::int), (3, 7)])" by simp
  show ?thesis
    using d add_merges_coeffs [OF d, of "[1 \<mapsto> 5, 2 \<mapsto> 6]" 2] by auto
qed

text \<open>
  C1. Three workers report the values 2, 4 and 6 for the same variable. The mean is 4; the
  pull-mode average \<open>x_average\<close> and the push-mode average \<open>consensus_map\<close> both hand out
  12, the sum, because the counts are never incremented and so no entry is ever divided.
\<close>

theorem x_average_returns_sum_not_mean:
  "(case x_average [(OPTIMAL, [(1, 2)]), (OPTIMAL, [(1, 4)]), (OPTIMAL, [(1, 6)])] of
      Inl e \<Rightarrow> None | Inr xbars \<Rightarrow> xbars 1) = Some 12 \<and>
   (case consensus_map [1 \<mapsto> 0]
           [(OPTIMAL, [(1, 2)], ()), (OPTIMAL, [(1, 4)], ()), (OPTIMAL, [(1, 6)], ())] of
      Inl e \<Rightarrow> None | Inr (xbars_n, udicts_n) \<Rightarrow> xbars_n 1) = Some 12"
  by (simp add: x_average_def consensus_map_def INF_OR_UNB_def divide_counts_def
      divide_counts_map_def dd_float_def dd_int_def)

lemma start_workers_ok:
  "i + length ps \<le> length rho \<Longrightarrow>
   fst (start_workers ps i rho acc) = None \<and>
   map proc_rho (snd (start_workers ps i rho acc)) = map proc_rho acc @ take (length ps) (drop i rho) \<and>
   map proc_alive (snd (start_workers ps i rho acc)) = map proc_alive acc @ replicate (length ps) True"
proof (induction ps arbitrary: i acc)
  case Nil
  then show ?case by simp
next
  case (Cons p ps)
  then have lt: "i < length rho" and le: "Suc i + length ps \<le> length rho" by auto
  have "take (Suc (length ps)) (drop i rho) = rho ! i # take (length ps) (drop (Suc i) rho)"
    using lt by (simp add: Cons_nth_drop_Suc [symmetric])
  then show ?case
    using Cons.IH [OF le] lt by (simp add: replicate_app_Cons_same)
qed

lemma start_workers_take:
  "i + length ps \<le> length rho \<Longrightarrow>
   start_workers ps i rho acc = start_workers ps i (take (i + length ps) rho) acc"
proof (induction ps arbitrary: i acc)
  case Nil
  then show ?case by simp
next
  case (Cons p ps)
  then have lt: "i < length rho" and le: "Suc i + length ps \<le> length rho" by auto
  from Cons.IH [OF le] lt show ?case by simp
qed

lemma admm_loop_unbound:
  "admm_loop n i N recv xb sent = (None, None, s) \<Longrightarrow> n = 0 \<and> xb = None"
proof (induction n arbitrary: i xb sent)
  case 0
  then show ?case by simp
next
  case (Suc n)
  then show ?case by (auto split: sum.splits)
qed


text \<open>
  C2. Two workers, three rounds allowed; in round 1 worker 1 reports INFEASIBLE. The call
  ends with the RuntimeError and hands out no average, and only round 0 was broadcast; but
  both worker processes are still running, since the exception leaves \<open>consensus\<close> before
  the line that terminates them.
\<close>

theorem consensus_abort_leaves_workers_running:
  "(let r = consensus [''p0'', ''p1''] 3 None
              (\<lambda>i w. if i = 1 \<and> w = 1 then (INFEASIBLE, []) else (OPTIMAL, [(w, 5)]))
    in outcome r = Inl RuntimeError \<and> sent_rounds r = [0] \<and>
       map proc_alive (procs r) = [True, True])"
  by (simp add: consensus_def x_average_def INF_OR_UNB_def Let_def upt_rec numeral_2_eq_2
      numeral_3_eq_3)

text \<open>
  C7, as stated, fails: with two problems and three initial step sizes the call goes ahead
  and returns the averages.
\<close>

theorem consensus_accepts_longer_rho_init:
  "length [1::real, 2, 3] \<noteq> length [''p0'', ''p1''] \<and>
   (case outcome (consensus [''p0'', ''p1''] 1 (Some [1, 2, 3]) (\<lambda>i w. (OPTIMAL, [(w, 5)]))) of
      Inl e \<Rightarrow> False | Inr xb \<Rightarrow> xb 0 = Some 5)"
  by (simp add: consensus_def x_average_def INF_OR_UNB_def Let_def upt_rec numeral_2_eq_2
      divide_counts_def dd_float_def dd_int_def)

text \<open>
  C7, amended. \<open>consensus\<close> does not compare the lengths. Without \<open>rho_init\<close> the call is
  the call with the list of \<open>N\<close> ones, so every worker is started with step size 1. A list
  at least as long as the problem list is accepted: the whole run (outcome, processes,
  broadcasts) is the run with the list cut to the number of problems, worker \<open>i\<close> gets
  entry \<open>i\<close>, and the entries beyond are ignored.
\<close>

theorem consensus_rho_init_lengths:
  "consensus p_list max_iter None recv
     = consensus p_list max_iter (Some (replicate (length p_list) 1)) recv \<and>
   map proc_rho (procs (consensus p_list max_iter None recv)) = replicate (length p_list) 1 \<and>
   (\<forall>r. length p_list \<le> length r \<longrightarrow>
      consensus p_list max_iter (Some r) recv
        = consensus p_list max_iter (Some (take (length p_list) r)) recv \<and>
      map proc_rho (procs (consensus p_list max_iter (Some r) recv)) = take (length p_list) r)"
proof -
  have a: "consensus p_list max_iter None recv
     = consensus p_list max_iter (Some (replicate (length p_list) 1)) recv"
    by (simp add: consensus_def Let_def)
  have b: "map proc_rho (procs (consensus p_list max_iter (Some r) recv))
        = take (length p_list) r" if "length p_list \<le> length r" for r
  proof -
    from that have "0 + length p_list \<le> length r" by simp
    from start_workers_ok [OF this, of "[]"] show ?thesis
      by (auto simp: consensus_def Let_def terminate_def comp_def
          split: prod.splits option.splits)
  qed
  have c: "consensus p_list max_iter (Some r) recv
        = consensus p_list max_iter (Some (take (length p_list) r)) recv"
    if "length p_list \<le> length r" for r
  proof -
    from that have "0 + length p_list \<le> length r" by simp
    from start_workers_take [OF this, of "[]"]
    have "start_workers p_list 0 r [] = start_workers p_list 0 (take (length p_list) r) []"
      by simp
    then show ?thesis
      unfolding consensus_def Let_def option.case by (rule arg_cong)
  qed
  have "map proc_rho (procs (consensus p_list max_iter None recv)) = replicate (length p_list) 1"
    using b [of "replicate (length p_list) 1"] a by simp
  with a b c show ?thesis by blast
qed

theorem consensus_rho_init_lengths_witness:
  "length [''p0'', ''p1''] \<le> length [2::real, 3, 4] \<and>
   consensus [''p0'', ''p1''] 1 (Some [2, 3, 4]) (\<lambda>i w. (OPTIMAL, [(w, 5)]))
     = consensus [''p0'', ''p1''] 1 (Some [2, 3]) (\<lambda>i w. (OPTIMAL, [(w, 5)])) \<and>
   map proc_rho (procs (consensus [''p0'', ''p1''] 1 (Some [2, 3, 4]) (\<lambda>i w. (OPTIMAL, [(w, 5)]))))
     = [2, 3] \<and>
   map proc_rho (procs (consensus [''p0'', ''p1''] 1 None (\<lambda>i w. (OPTIMAL, [(w, 5)])))) = [1, 1]"
proof -
  have h: "length [''p0'', ''p1''] \<le> length [2::real, 3, 4]" by simp
  have t: "take (length [''p0'', ''p1'']) [2::real, 3, 4] = [2, 3]" by simp
  have r: "replicate (length [''p0'', ''p1'']) (1::real) = [1, 1]"
    by (simp add: numeral_2_eq_2)
  note T = consensus_rho_init_lengths [where p_list = "[''p0'', ''p1'']"
      and max_iter = 1 and recv = "\<lambda>i w. (OPTIMAL, [(w, 5)])"]
  from T have a:
    "map proc_rho (procs (consensus [''p0'', ''p1''] 1 None (\<lambda>i w. (OPTIMAL, [(w, 5)]))))
       = replicate (length [''p0'', ''p1'']) 1"
    by (rule conjunct1 [OF conjunct2])
  from T have "\<forall>r. length [''p0'', ''p1''] \<le> length r \<longrightarrow>
      consensus [''p0'', ''p1''] 1 (Some r) (\<lambda>i w. (OPTIMAL, [(w, 5)]))
        = consensus [''p0'', ''p1''] 1 (Some (take (length [''p0'', ''p1'']) r))
            (\<lambda>i w. (OPTIMAL, [(w, 5)])) \<and>
      map proc_rho (procs (consensus [''p0'', ''p1''] 1 (Some r) (\<lambda>i w. (OPTIMAL, [(w, 5)]))))
        = take (length [''p0'', ''p1'']) r"
    by (rule conjunct2 [OF conjunct2])
  from this [rule_format, OF h] have b:
    "consensus [''p0'', ''p1''] 1 (Some [2, 3, 4]) (\<lambda>i w. (OPTIMAL, [(w, 5)]))
        = consensus [''p0'', ''p1''] 1 (Some [2, 3]) (\<lambda>i w. (OPTIMAL, [(w, 5)]))"
    and c: "map proc_rho (procs (consensus [''p0'', ''p1''] 1 (Some [2, 3, 4])
              (\<lambda>i w. (OPTIMAL, [(w, 5)])))) = [2, 3]"
    unfolding t by blast+
  from a have a': "map proc_rho (procs (consensus [''p0'', ''p1''] 1 None
              (\<lambda>i w. (OPTIMAL, [(w, 5)])))) = [1, 1]"
    unfolding r .
  from h b c a' show ?thesis by blast
qed

text \<open>
  C9, as stated, fails: with \<open>max_iter = 0\<close>, two problems and one initial step size the call
  fails, but with IndexError from the set-up loop, not with the unbound-variable error.
\<close>

theorem consensus_zero_rounds_index_error:
  "outcome (consensus [''p0'', ''p1''] 0 (Some [7]) (\<lambda>i w. (OPTIMAL, [(w, 5)]))) = Inl IndexError \<and>
   outcome (consensus [''p0'', ''p1''] 0 (Some [7]) (\<lambda>i w. (OPTIMAL, [(w, 5)])))
     \<noteq> Inl UnboundLocalError"
  by (simp add: consensus_def)

text \<open>
  C9, amended. When an initial step size is at hand for every problem (\<open>rho_init\<close> left out,
  or with an entry for each problem) and \<open>max_iter \<le> 0\<close>, the round loop does not run,
  nothing is broadcast, \<open>xbars\<close> is unbound at the return and the call fails with
  UnboundLocalError. Whenever the call returns a result, \<open>max_iter \<ge> 1\<close>.
\<close>

theorem consensus_needs_a_round:
  "(max_iter \<le> 0 \<and> (case rho_init_kw of None \<Rightarrow> True | Some r \<Rightarrow> length p_list \<le> length r)
      \<longrightarrow> outcome (consensus p_list max_iter rho_init_kw recv) = Inl UnboundLocalError \<and>
          sent_rounds (consensus p_list max_iter rho_init_kw recv) = []) \<and>
   (\<forall>xb. outcome (consensus p_list max_iter rho_init_kw recv) = Inr xb \<longrightarrow> 1 \<le> max_iter)"
proof (intro conjI allI impI)
  assume a: "max_iter \<le> 0 \<and> (case rho_init_kw of None \<Rightarrow> True | Some r \<Rightarrow> length p_list \<le> length r)"
  define rho where "rho = (case rho_init_kw of None \<Rightarrow> replicate (length p_list) 1 | Some r \<Rightarrow> r)"
  have "0 + length p_list \<le> length rho"
    using a by (auto simp: rho_def split: option.splits)
  from start_workers_ok [OF this, of "[]"]
  have s: "fst (start_workers p_list 0 rho []) = None" by simp
  have n: "nat max_iter = 0" using a by simp
  from s n show "outcome (consensus p_list max_iter rho_init_kw recv) = Inl UnboundLocalError"
    by (auto simp: consensus_def Let_def rho_def [symmetric] split: prod.splits option.splits)
  from s n show "sent_rounds (consensus p_list max_iter rho_init_kw recv) = []"
    by (auto simp: consensus_def Let_def rho_def [symmetric] split: prod.splits option.splits)
next
  fix xb assume r: "outcome (consensus p_list max_iter rho_init_kw recv) = Inr xb"
  show "1 \<le> max_iter"
  proof (rule ccontr)
    assume "\<not> 1 \<le> max_iter"
    then have "nat max_iter = 0" by simp
    with r show False
      by (auto simp: consensus_def Let_def split: prod.splits option.splits)
  qed
qed

theorem consensus_needs_a_round_witness:
  "outcome (consensus [''p0'', ''p1''] 0 None (\<lambda>i w. (OPTIMAL, [(w, 5)]))) = Inl UnboundLocalError \<and>
   sent_rounds (consensus [''p0'', ''p1''] 0 None (\<lambda>i w. (OPTIMAL, [(w, 5)]))) = [] \<and>
   (\<exists>xb. outcome (consensus [''p0'', ''p1''] 1 None (\<lambda>i w. (OPTIMAL, [(w, 5)]))) = Inr xb) \<and>
   (1::int) \<le> 1"
proof -
  have r: "\<exists>xb. outcome (consensus [''p0'', ''p1''] 1 None (\<lambda>i w. (OPTIMAL, [(w, 5)]))) = Inr xb"
    by (simp add: consensus_def x_average_def INF_OR_UNB_def Let_def upt_rec numeral_2_eq_2)
  show ?thesis
    using r consensus_needs_a_round [where max_iter = 0 and rho_init_kw = None
        and p_list = "[''p0'', ''p1'']" and recv = "\<lambda>i w. (OPTIMAL, [(w, 5)])"]
      consensus_needs_a_round [where max_iter = 1 and rho_init_kw = None
        and p_list = "[''p0'', ''p1'']" and recv = "\<lambda>i w. (OPTIMAL, [(w, 5)])"]
    by simp
qed

lemma sum_sq_nonneg: "0 \<le> sum_sq v"
  unfolding sum_sq_def by (induction v) auto

lemma sum_sq_zero_iff: "sum_sq v = 0 \<longleftrightarrow> (\<forall>x\<in>set v. x = 0)"
proof (induction v)
  case Nil
  then show ?case by (simp add: sum_sq_def)
next
  case (Cons a v)
  have "0 \<le> sum_sq v" by (rule sum_sq_nonneg)
  moreover have "sum_sq (a # v) = a\<^sup>2 + sum_sq v" by (simp add: sum_sq_def)
  moreover have "0 \<le> a\<^sup>2" by simp
  ultimately have "sum_sq (a # v) = 0 \<longleftrightarrow> a\<^sup>2 = 0 \<and> sum_sq v = 0"
    by (simp add: add_nonneg_eq_0_iff)
  with Cons.IH show ?case by simp
qed


text \<open>
  C6. If one of the four difference vectors has zero sum of squares (in particular if every
  entry of \<open>dx\<close> is zero), \<open>step_spec\<close> returns \<open>rho\<close> itself, whatever the other arguments
  are: no shape, iteration index, threshold or constant can make it raise or change it.
\<close>

theorem step_spec_degenerate_noop:
  assumes "(\<forall>x\<in>set dx. x = 0) \<or> sum_sq dx = 0 \<or> sum_sq dxbar = 0 \<or> sum_sq du = 0
           \<or> sum_sq duhat = 0"
  shows "step_spec rho k dx dxbar du duhat eps C = Inr (Fin rho)"
proof -
  from assms have "sum_sq dx = 0 \<or> sum_sq dxbar = 0 \<or> sum_sq du = 0 \<or> sum_sq duhat = 0"
    by (auto simp: sum_sq_zero_iff)
  then show ?thesis by (simp add: step_spec_def)
qed










theorem step_spec_degenerate_noop_witness:
  "sum_sq [0, 0] = 0 \<and>
   step_spec 3 1 [0, 0] [1] [2] [5] (1 / 5) 10000000000 = Inr (Fin 3)"
  using step_spec_degenerate_noop [where dx = "[0, 0]" and dxbar = "[1]" and du = "[2]"
      and duhat = "[5]" and rho = 3 and k = 1 and eps = "1 / 5" and C = 10000000000]
  by (simp add: sum_sq_def)



text \<open>
  The threshold matters as well: with \<open>eps = -7/10\<close> a pair of negative correlation
  \<open>-3/5\<close> passes the safeguard with a negative estimate, the square root is not a number,
  and neither \<open>min\<close> nor \<open>max\<close> replaces it.
\<close>

lemma step_spec_negative_eps_nan:
  "step_spec 1 1 [1, 0] [1] [1] [- 3 / 5, 4 / 5] (- 7 / 10) 1 = Inr NaN"
  by (simp add: step_spec_def step_ls_def step_cor_def step_safe_def vec_mul_def sum_sq_def
      np_div_def py_min_def py_max_def Let_def power2_eq_square)























lemma bop_same_length: "length a = length b \<Longrightarrow> bop f a b = map2 f a b"
  by (simp add: bop_def)

lemma bop_scalar_right: "bop f a [s] = map (\<lambda>x. f x s) a"
proof (cases "length a = 1")
  case True
  then obtain a0 where "a = [a0]" by (cases a) auto
  then show ?thesis by (simp add: bop_def)
next
  case False
  then show ?thesis by (simp add: bop_def)
qed

lemma sub_sub_div:
  "length xb = length x \<Longrightarrow> length u = length x \<Longrightarrow>
   map2 (-) (map2 (-) x xb) (map (\<lambda>y. y / r) u)
     = map (\<lambda>(x, xb, u). x - xb - u / r) (zip x (zip xb u))"
proof (induction x arbitrary: xb u)
  case Nil
  then show ?case by simp
next
  case (Cons a x)
  then obtain b xb' c u' where "xb = b # xb'" "u = c # u'"
    by (cases xb; cases u) auto
  with Cons show ?case by simp
qed

lemma eval_penalty:
  assumes "e_par env PRho = [r]"
    and "length (e_par env (PXbar xid)) = length (e_var env xid)"
    and "length (e_par env (PU xid)) = length (e_var env xid)"
  shows "eval env (Mul (Div (Par PRho) (Const 2))
                 (SumSquares (Sub (Sub (Var xid) (Par (PXbar xid)))
                                  (Div (Par (PU xid)) (Par PRho)))))
           = [penalty env r xid]"
proof -
  have d: "eval env (Div (Par (PU xid)) (Par PRho)) = map (\<lambda>y. y / r) (e_par env (PU xid))"
    using assms(1) by (simp add: bop_scalar_right)
  have s: "eval env (Sub (Var xid) (Par (PXbar xid)))
             = map2 (-) (e_var env xid) (e_par env (PXbar xid))"
    using assms(2) by (simp add: bop_same_length)
  have "eval env (Sub (Sub (Var xid) (Par (PXbar xid))) (Div (Par (PU xid)) (Par PRho)))
          = map2 (-) (map2 (-) (e_var env xid) (e_par env (PXbar xid)))
              (map (\<lambda>y. y / r) (e_par env (PU xid)))"
    using assms(2,3) by (simp only: eval.simps(7) d s) (simp add: bop_same_length)
  also have "\<dots> = map (\<lambda>(x, xb, u). x - xb - u / r)
                 (zip (e_var env xid) (zip (e_par env (PXbar xid)) (e_par env (PU xid))))"
    using assms(2,3) by (rule sub_sub_div)
  finally have "eval env (SumSquares (Sub (Sub (Var xid) (Par (PXbar xid)))
                  (Div (Par (PU xid)) (Par PRho))))
      = [sum_sq (map (\<lambda>(x, xb, u). x - xb - u / r)
                 (zip (e_var env xid) (zip (e_par env (PXbar xid)) (e_par env (PU xid)))))]"
    by simp
  moreover have "eval env (Div (Par PRho) (Const 2)) = [r / 2]"
    using assms(1) by (simp add: bop_scalar_right)
  ultimately show ?thesis
    by (simp only: eval.simps(8)) (simp add: bop_same_length penalty_def)
qed

lemma penalty_loop_objective:
  assumes "e_par env PRho = [r]"
  shows "eval env f = [c] \<Longrightarrow>
   (\<forall>(xid, shape)\<in>set vars. length (e_par env (PXbar xid)) = length (e_var env xid) \<and>
                              length (e_par env (PU xid)) = length (e_var env xid)) \<Longrightarrow>
   eval env (fst (snd (penalty_loop vars (vmap, f, vals))))
     = [c + (\<Sum>(xid, shape)\<leftarrow>vars. penalty env r xid)]"
proof (induction vars arbitrary: vmap f vals c)
  case Nil
  then show ?case by simp
next
  case (Cons v vars)
  obtain xid shape where v: "v = (xid, shape)" by (cases v)
  define pen where "pen = Mul (Div (Par PRho) (Const 2))
                 (SumSquares (Sub (Sub (Var xid) (Par (PXbar xid)))
                                  (Div (Par (PU xid)) (Par PRho))))"
  from Cons.prems(2) v have len: "length (e_par env (PXbar xid)) = length (e_var env xid)"
    "length (e_par env (PU xid)) = length (e_var env xid)" by auto
  have "eval env pen = [penalty env r xid]"
    unfolding pen_def by (rule eval_penalty [OF assms len])
  with Cons.prems(1) have f': "eval env (Add f pen) = [c + penalty env r xid]"
    by (simp add: bop_same_length)
  from Cons.prems(2) have rest: "\<forall>(xid, shape)\<in>set vars.
      length (e_par env (PXbar xid)) = length (e_var env xid) \<and>
      length (e_par env (PU xid)) = length (e_var env xid)" by simp
  from Cons.IH [OF f' rest] show ?case
    by (simp add: v pen_def add.assoc)
qed

lemma penalty_loop_vals_other:
  "(\<forall>xid. p \<noteq> PXbar xid \<and> p \<noteq> PU xid) \<Longrightarrow>
   snd (snd (penalty_loop vars (vmap, f, vals))) p = vals p"
  by (induction vars arbitrary: vmap f vals) auto

lemma penalty_loop_vals:
  "distinct (map fst vars) \<Longrightarrow> (xid, shape) \<in> set vars \<Longrightarrow>
   snd (snd (penalty_loop vars (vmap, f, vals))) (PXbar xid) = Some (zeros shape) \<and>
   snd (snd (penalty_loop vars (vmap, f, vals))) (PU xid) = Some (zeros shape) \<and>
   fst (penalty_loop vars (vmap, f, vals)) xid
     = Some \<lparr>vm_x = Var xid, vm_xbar = PXbar xid, vm_u = PU xid\<rparr>"
proof (induction vars arbitrary: vmap f vals)
  case Nil
  then show ?case by simp
next
  case (Cons v vars)
  obtain y sh where v: "v = (y, sh)" by (cases v)
  show ?case
  proof (cases "(xid, shape) \<in> set vars")
    case True
    with Cons show ?thesis by (simp add: v)
  next
    case False
    with Cons.prems v have e: "y = xid" "sh = shape" and n: "xid \<notin> fst ` set vars" by auto
    have keep: "\<And>vmap f vals. xid \<notin> fst ` set vars \<Longrightarrow>
        snd (snd (penalty_loop vars (vmap, f, vals))) (PXbar xid) = vals (PXbar xid) \<and>
        snd (snd (penalty_loop vars (vmap, f, vals))) (PU xid) = vals (PU xid) \<and>
        fst (penalty_loop vars (vmap, f, vals)) xid = vmap xid"
      by (induction vars) auto
    show ?thesis using keep [OF n] by (simp add: v e)
  qed
qed


text \<open>
  C8. For every local problem, list of its variables (each once) and initial step size,
  \<open>prox_step\<close> returns a problem with the constraint list of the local problem, unchanged,
  and a minimisation objective whose value is the value of the normalised local objective
  (the argument of a minimisation, the negated argument of a maximisation) plus the sum over
  all variables of \<open>(rho/2) * ||x - xbar - u/rho||\<^sup>2\<close>, under any values in which the step
  size is a nonzero scalar, the local objective is a scalar and \<open>xbar\<close> and \<open>u\<close> have the
  shape of their variable. The parameters \<open>xbar\<close> and \<open>u\<close> of every variable are created
  with zeros of the variable's size, the step size with \<open>rho_init\<close>, and \<open>vmap\<close> holds the
  variable with its two parameters.
\<close>

theorem prox_step_penalised_problem:
  assumes "distinct (map fst variables)"
    and "e_par env PRho = [r]" and "r \<noteq> 0"
    and "eval env (args0 (flip_obj prob)) = [c]"
    and "\<forall>(xid, shape)\<in>set variables.
           length (e_par env (PXbar xid)) = length (e_var env xid) \<and>
           length (e_par env (PU xid)) = length (e_var env xid)"
  shows "p_constraints (r_prox (prox_step prob variables rho_init)) = p_constraints prob \<and>
         (\<forall>e. p_objective prob = Minimize e \<longrightarrow> args0 (flip_obj prob) = e) \<and>
         (\<forall>e. p_objective prob = Maximize e \<longrightarrow> args0 (flip_obj prob) = Neg e) \<and>
         (\<exists>f. p_objective (r_prox (prox_step prob variables rho_init)) = Minimize f \<and>
              eval env f = [c + (\<Sum>(xid, shape)\<leftarrow>variables. penalty env r xid)]) \<and>
         r_vals (prox_step prob variables rho_init) PRho = Some [rho_init] \<and>
         (\<forall>(xid, shape)\<in>set variables.
            r_vals (prox_step prob variables rho_init) (PXbar xid) = Some (zeros shape) \<and>
            r_vals (prox_step prob variables rho_init) (PU xid) = Some (zeros shape) \<and>
            r_vmap (prox_step prob variables rho_init) xid
              = Some \<lparr>vm_x = Var xid, vm_xbar = PXbar xid, vm_u = PU xid\<rparr>)"
proof -
  define f0 where "f0 = args0 (flip_obj prob)"
  define v0 :: "param \<rightharpoonup> real list" where "v0 = [PRho \<mapsto> [rho_init]]"
  define res where "res = penalty_loop variables (Map.empty, f0, v0)"
  have ps: "prox_step prob variables rho_init =
      \<lparr>r_prox = \<lparr>p_objective = Minimize (fst (snd res)), p_constraints = p_constraints prob\<rparr>,
       r_vmap = fst res, r_vals = snd (snd res)\<rparr>"
    by (simp add: prox_step_def res_def f0_def v0_def split: prod.splits)
  have a: "p_constraints (r_prox (prox_step prob variables rho_init)) = p_constraints prob"
    by (simp add: ps)
  have b1: "\<forall>e. p_objective prob = Minimize e \<longrightarrow> args0 (flip_obj prob) = e"
    by (simp add: flip_obj_def)
  have b2: "\<forall>e. p_objective prob = Maximize e \<longrightarrow> args0 (flip_obj prob) = Neg e"
    by (simp add: flip_obj_def)
  have "eval env (fst (snd res)) = [c + (\<Sum>(xid, shape)\<leftarrow>variables. penalty env r xid)]"
    unfolding res_def
    by (rule penalty_loop_objective [OF assms(2) _ assms(5)]) (simp add: f0_def assms(4))
  then have c: "\<exists>f. p_objective (r_prox (prox_step prob variables rho_init)) = Minimize f \<and>
              eval env f = [c + (\<Sum>(xid, shape)\<leftarrow>variables. penalty env r xid)]"
    by (simp add: ps)
  have d: "r_vals (prox_step prob variables rho_init) PRho = Some [rho_init]"
    using penalty_loop_vals_other [of PRho variables Map.empty f0 v0]
    by (simp add: ps res_def v0_def)
  have e: "\<forall>(xid, shape)\<in>set variables.
            r_vals (prox_step prob variables rho_init) (PXbar xid) = Some (zeros shape) \<and>
            r_vals (prox_step prob variables rho_init) (PU xid) = Some (zeros shape) \<and>
            r_vmap (prox_step prob variables rho_init) xid
              = Some \<lparr>vm_x = Var xid, vm_xbar = PXbar xid, vm_u = PU xid\<rparr>"
    using penalty_loop_vals [OF assms(1), of _ _ Map.empty f0 v0]
    by (auto simp: ps res_def)
  from a b1 b2 c d e show ?thesis by blast
qed

theorem prox_step_penalised_problem_witness:
  "distinct (map fst [(1::nat, (2::nat, 1::nat))]) \<and>
   p_constraints (r_prox (prox_step \<lparr>p_objective = Maximize (Opaque 0), p_constraints = [''c1'']\<rparr>
                            [(1, (2, 1))] 1)) = [''c1''] \<and>
   (\<exists>f. p_objective (r_prox (prox_step \<lparr>p_objective = Maximize (Opaque 0),
                                        p_constraints = [''c1'']\<rparr> [(1, (2, 1))] 1))
           = Minimize f \<and>
        eval \<lparr>e_var = (\<lambda>xid. [3, 4]), e_par = (\<lambda>p. if p = PRho then [2] else [1, 1]),
              e_opaque = (\<lambda>n. [7])\<rparr> f = [3 / 2]) \<and>
   r_vals (prox_step \<lparr>p_objective = Maximize (Opaque 0), p_constraints = [''c1'']\<rparr>
             [(1, (2, 1))] 1) (PXbar 1) = Some [0, 0]"
proof -
  define P :: "string problem" where
    "P = \<lparr>p_objective = Maximize (Opaque 0), p_constraints = [''c1'']\<rparr>"
  define V :: "(vid \<times> nat \<times> nat) list" where "V = [(1, (2, 1))]"
  define E where "E = \<lparr>e_var = (\<lambda>xid. [3, 4::real]),
                       e_par = (\<lambda>p. if p = PRho then [2] else [1, 1::real]),
                       e_opaque = (\<lambda>n. [7::real])\<rparr>"
  have h1: "distinct (map fst V)" by (simp add: V_def)
  have h2: "e_par E PRho = [2]" by (simp add: E_def)
  have h3: "(2::real) \<noteq> 0" by simp
  have h4: "eval E (args0 (flip_obj P)) = [- 7]" by (simp add: E_def P_def flip_obj_def)
  have h5: "\<forall>(xid, shape)\<in>set V. length (e_par E (PXbar xid)) = length (e_var E xid) \<and>
           length (e_par E (PU xid)) = length (e_var E xid)"
    by (simp add: E_def V_def)
  have pen: "(\<Sum>(xid, shape)\<leftarrow>V. penalty E 2 xid) = 17 / 2"
    by (simp add: V_def penalty_def E_def sum_sq_def power2_eq_square)
  note T = prox_step_penalised_problem [OF h1 h2 h3 h4 h5, of 1]
  from T have a: "p_constraints (r_prox (prox_step P V 1)) = p_constraints P" by blast
  from T pen have b: "\<exists>f. p_objective (r_prox (prox_step P V 1)) = Minimize f \<and>
      eval E f = [3 / 2]" by auto
  from T have "\<forall>(xid, shape)\<in>set V. r_vals (prox_step P V 1) (PXbar xid) = Some (zeros shape)"
    by blast
  then have c: "r_vals (prox_step P V 1) (PXbar 1) = Some [0, 0]"
    by (simp add: V_def zeros_def numeral_2_eq_2)
  have pc: "p_constraints P = [''c1'']" by (simp add: P_def)
  from h1 a b c pc show ?thesis unfolding P_def V_def E_def by simp
qed

end
